theory Spec2Isabelle
  imports Main "HOL-Library.Multiset"
begin

section \<open>Numbers\<close>

text \<open>
  The hook of \<^verbatim>\<open>src/index.ts\<close> works on JavaScript numbers holding milliseconds:
  instants are milliseconds since the epoch, anchors are milliseconds past midnight.
  The embedding uses \<^typ>\<open>int\<close> for them: it covers the integer values (which is what
  \<^verbatim>\<open>Date.now()\<close>, \<^verbatim>\<open>getTime()\<close> and \<^verbatim>\<open>Date.UTC\<close> return), on which the arithmetic of
  doubles is exact far beyond the range of dates. Fractional anchors, \<^verbatim>\<open>NaN\<close> and the
  infinities are outside the embedding.
\<close>

definition TWENTY_FOUR_HOURS :: int where
  "TWENTY_FOUR_HOURS = 24 * 60 * 60 * 1000"

text \<open>
  The operator \<^verbatim>\<open>%\<close> of JavaScript is the truncated remainder: the result takes the
  sign of the dividend and its magnitude is the remainder of the magnitudes. For a zero
  divisor JavaScript gives \<^verbatim>\<open>NaN\<close>, which the embedding does not represent: the divisor
  is \<open>TWENTY_FOUR_HOURS\<close> in \<^verbatim>\<open>getRefreshValues\<close>, and what is proved of
  \<^verbatim>\<open>setIntervalRelativeTo\<close> assumes a positive interval.
\<close>

definition js_rem :: "int \<Rightarrow> int \<Rightarrow> int" where
  "js_rem a b = sgn a * (abs a mod abs b)"

section \<open>Strings\<close>

text \<open>
  Strings are lists of \<^typ>\<open>char\<close>; a character is read as the code unit of that number, so
  the embedding covers the strings whose code units lie below 256. Of the characters that
  \<^verbatim>\<open>String.prototype.trim\<close> strips, those are tab, line feed, vertical tab, form feed,
  carriage return, space and the no-break space.
\<close>

definition isWhiteSpace :: "char \<Rightarrow> bool" where
  "isWhiteSpace c = (of_char c \<in> {9::nat, 10, 11, 12, 13, 32, 160})"

definition trim :: "string \<Rightarrow> string" where
  "trim s = rev (dropWhile isWhiteSpace (rev (dropWhile isWhiteSpace s)))"

text \<open>The class \<^verbatim>\<open>\d\<close> of a regular expression without the unicode flag: the ten ASCII digits.\<close>

definition isDigit :: "char \<Rightarrow> bool" where
  "isDigit c = (c \<in> set ''0123456789'')"

definition digitValue :: "char \<Rightarrow> nat" where
  "digitValue c = of_char c - 48"

text \<open>\<^verbatim>\<open>Number(s)\<close> on a string of decimal digits.\<close>

definition toNumber :: "string \<Rightarrow> nat" where
  "toNumber s = foldl (\<lambda>acc c. 10 * acc + digitValue c) 0 s"

definition digitChar :: "nat \<Rightarrow> char" where
  "digitChar d = char_of (48 + d)"

text \<open>\<^verbatim>\<open>n.toString()\<close> on a natural number: its decimal digits, no leading zero.\<close>

fun toString :: "nat \<Rightarrow> string" where
  "toString n = (if n < 10 then [digitChar n] else toString (n div 10) @ [digitChar (n mod 10)])"

declare toString.simps [simp del]

text \<open>\<^verbatim>\<open>s.padEnd(n, c)\<close> for a one-character filler.\<close>

definition padEnd :: "nat \<Rightarrow> char \<Rightarrow> string \<Rightarrow> string" where
  "padEnd n c s = s @ replicate (n - length s) c"

section \<open>The time pattern\<close>

text \<open>
  \<^verbatim>\<open>TIME_REGEX = /^([01]?\d|2[0-3])(?::([0-5]\d)(?::([0-5]\d)(?:\.(\d{1,3}))?)?)?$/\<close>

  The matcher below follows the backtracking of the pattern. The hour group offers its
  alternatives in the order the engine tries them; each optional group is tried before
  the empty match; whatever is chosen, the remainder of the pattern up to \<^verbatim>\<open>$\<close> has to
  match the remainder of the string. The result holds the four capture groups, an
  unmatched group being \<open>None\<close> (\<^verbatim>\<open>undefined\<close>).
\<close>

text \<open>\<^verbatim>\<open>(?:\.(\d{1,3}))?$\<close>\<close>

fun match_fraction :: "string \<Rightarrow> string option option" where
  "match_fraction [] = Some None"
| "match_fraction (c # r) =
     (if c = CHR ''.'' \<and> 1 \<le> length r \<and> length r \<le> 3 \<and> list_all isDigit r
      then Some (Some r) else None)"

text \<open>\<^verbatim>\<open>(?::([0-5]\d)(?:\.(\d{1,3}))?)?$\<close>\<close>

fun match_seconds :: "string \<Rightarrow> (string option \<times> string option) option" where
  "match_seconds [] = Some (None, None)"
| "match_seconds (c # a # b # r) =
     (if c = CHR '':'' \<and> a \<in> set ''012345'' \<and> isDigit b
      then map_option (\<lambda>f. (Some [a, b], f)) (match_fraction r) else None)"
| "match_seconds _ = None"

text \<open>\<^verbatim>\<open>(?::([0-5]\d)(?::([0-5]\d)(?:\.(\d{1,3}))?)?)?$\<close>\<close>

fun match_minutes :: "string \<Rightarrow> (string option \<times> string option \<times> string option) option" where
  "match_minutes [] = Some (None, None, None)"
| "match_minutes (c # a # b # r) =
     (if c = CHR '':'' \<and> a \<in> set ''012345'' \<and> isDigit b
      then map_option (\<lambda>sf. (Some [a, b], sf)) (match_seconds r) else None)"
| "match_minutes _ = None"

text \<open>
  \<^verbatim>\<open>([01]?\d|2[0-3])\<close>: the ways the hour group can match a prefix, in the order of the
  engine: \<^verbatim>\<open>[01]\<close> and a digit, a digit alone, \<^verbatim>\<open>2\<close> and one of \<^verbatim>\<open>0\<close> to \<^verbatim>\<open>3\<close>.
  Each comes with the rest of the string.
\<close>

definition hour_alternatives :: "string \<Rightarrow> (string \<times> string) list" where
  "hour_alternatives s =
     (case s of a # b # r \<Rightarrow> (if a \<in> set ''01'' \<and> isDigit b then [([a, b], r)] else []) | _ \<Rightarrow> [])
     @ (case s of a # r \<Rightarrow> (if isDigit a then [([a], r)] else []) | _ \<Rightarrow> [])
     @ (case s of a # b # r \<Rightarrow> (if a = CHR ''2'' \<and> b \<in> set ''0123'' then [([a, b], r)] else []) | _ \<Rightarrow> [])"

fun first_match :: "('a \<Rightarrow> 'b option) \<Rightarrow> 'a list \<Rightarrow> 'b option" where
  "first_match f [] = None"
| "first_match f (x # xs) = (case f x of Some y \<Rightarrow> Some y | None \<Rightarrow> first_match f xs)"

text \<open>\<^verbatim>\<open>TIME_REGEX.exec(s)?.slice(1)\<close>: the four groups, or \<open>None\<close> when there is no match.\<close>

definition TIME_REGEX_exec :: "string \<Rightarrow> string option list option" where
  "TIME_REGEX_exec s =
     first_match
       (\<lambda>(h, r). map_option (\<lambda>(m, sec, f). [Some h, m, sec, f]) (match_minutes r))
       (hour_alternatives s)"

section \<open>Normalising the anchors\<close>

text \<open>
  An element of \<^verbatim>\<open>refreshAt\<close> by its \<^verbatim>\<open>typeof\<close>: a number, a string, or anything
  else. The option itself is one such value or an array of them.
\<close>

datatype RefreshAt = RNumber int | RString string | ROther

datatype RefreshAtOption = Single RefreshAt | Array "RefreshAt list"

text \<open>
  The source throws plain \<^verbatim>\<open>Error\<close> objects that differ by their message. The three
  throw sites are the three constructors; \<open>message\<close> gives the text each one carries.
\<close>

datatype error = InvalidFormat string | InvalidType | EmptyAnchorSet

fun message :: "error \<Rightarrow> string" where
  "message (InvalidFormat v) =
     ''Invalid refreshAt value format.  Expected `h[:mm[:ss[.ms]]]`.  Received: ''
       @ [CHR 0x27] @ v @ [CHR 0x27]"
| "message InvalidType = ''refreshAt must be a string, a number, or an array of strings and numbers''"
| "message EmptyAnchorSet = ''refreshAt must have at least one value''"

text \<open>
  \<^verbatim>\<open>TIME_REGEX.exec(v.trim())?.slice(1).filter(v => v != null).map(Number)\<close>
\<close>

definition timeSegments :: "string \<Rightarrow> nat list option" where
  "timeSegments v =
     map_option (\<lambda>groups. map toNumber (List.map_filter id groups)) (TIME_REGEX_exec (trim v))"

text \<open>
  \<^verbatim>\<open>if (timeSegments[3] < 100) timeSegments[3] = Number(timeSegments[3].toString().padEnd(3, '0'))\<close>;
  with fewer than four segments the comparison is \<^verbatim>\<open>undefined < 100\<close>, which is false.
\<close>

definition padMilliseconds :: "nat list \<Rightarrow> nat list" where
  "padMilliseconds ts =
     (if 3 < length ts \<and> ts ! 3 < 100
      then ts[3 := toNumber (padEnd 3 (CHR ''0'') (toString (ts ! 3)))]
      else ts)"

text \<open>
  What these lines make of the text of the fraction, the fourth group: its number, padded
  when it is below 100.
\<close>

definition padded_fraction :: "string \<Rightarrow> nat" where
  "padded_fraction f =
     (if toNumber f < 100 then toNumber (padEnd 3 (CHR ''0'') (toString (toNumber f)))
      else toNumber f)"

text \<open>
  \<^verbatim>\<open>Date.UTC(1970, 0, 1, ...timeSegments)\<close>: the first day of the epoch, so the result is
  the time within the day; an argument that is not given counts as zero.
\<close>

definition argument :: "nat list \<Rightarrow> nat \<Rightarrow> int" where
  "argument ts i = (if i < length ts then int (ts ! i) else 0)"

definition Date_UTC_1970_0_1 :: "nat list \<Rightarrow> int" where
  "Date_UTC_1970_0_1 ts =
     argument ts 0 * 3600000 + argument ts 1 * 60000 + argument ts 2 * 1000 + argument ts 3"

text \<open>The callback of \<^verbatim>\<open>map\<close> in \<^verbatim>\<open>getRefreshValues\<close>: a value or a throw.\<close>

fun refreshValue :: "RefreshAt \<Rightarrow> error + int" where
  "refreshValue (RNumber v) = Inr (js_rem v TWENTY_FOUR_HOURS)"
| "refreshValue (RString v) =
     (case timeSegments v of
        None \<Rightarrow> Inl (InvalidFormat v)
      | Some ts \<Rightarrow> Inr (Date_UTC_1970_0_1 (padMilliseconds ts)))"
| "refreshValue ROther = Inl InvalidType"

text \<open>\<^verbatim>\<open>Array.prototype.map\<close> with a callback that may throw: the first throw ends it.\<close>

fun map_throw :: "('a \<Rightarrow> error + 'b) \<Rightarrow> 'a list \<Rightarrow> error + 'b list" where
  "map_throw f [] = Inr []"
| "map_throw f (x # xs) =
     (case f x of
        Inl e \<Rightarrow> Inl e
      | Inr y \<Rightarrow> (case map_throw f xs of Inl e \<Rightarrow> Inl e | Inr ys \<Rightarrow> Inr (y # ys)))"

text \<open>\<^verbatim>\<open>[refreshAt].flat()\<close>\<close>

fun flat :: "RefreshAtOption \<Rightarrow> RefreshAt list" where
  "flat (Single v) = [v]"
| "flat (Array vs) = vs"

text \<open>\<^verbatim>\<open>getRefreshValues\<close>: map, then \<^verbatim>\<open>sort((a, b) => a - b)\<close>.\<close>

definition getRefreshValues :: "RefreshAtOption \<Rightarrow> error + int list" where
  "getRefreshValues refreshAt =
     (case map_throw refreshValue (flat refreshAt) of
        Inl e \<Rightarrow> Inl e
      | Inr vs \<Rightarrow> Inr (sort vs))"

text \<open>Whether the callback throws on an element; \<^verbatim>\<open>map\<close> goes on past the others.\<close>

definition throws :: "RefreshAt \<Rightarrow> bool" where
  "throws v = isl (refreshValue v)"

section \<open>The grammar of textual anchors, as the specification words it\<close>

text \<open>
  The specification describes a textual anchor as \<^verbatim>\<open>H(:MM(:SS(.F)?)?)?\<close>: an hour of one
  or two digits between 0 and 23, minutes and seconds of two digits between 0 and 59, and
  a fraction of one to three digits. The predicates below say this in terms of the text
  and of the numbers the digits denote; they are compared with \<open>TIME_REGEX_exec\<close> in
  \<open>TIME_REGEX_matches_grammar\<close>.
\<close>

definition hour_text :: "string \<Rightarrow> bool" where
  "hour_text t = ((length t = 1 \<or> length t = 2) \<and> list_all isDigit t \<and> toNumber t \<le> 23)"

definition sixty_text :: "string \<Rightarrow> bool" where
  "sixty_text t = (length t = 2 \<and> list_all isDigit t \<and> toNumber t \<le> 59)"

definition fraction_text :: "string \<Rightarrow> bool" where
  "fraction_text t = (1 \<le> length t \<and> length t \<le> 3 \<and> list_all isDigit t)"

text \<open>
  The milliseconds of a fraction, as the specification words them: the digits right-padded
  with zeros to three digits.
\<close>

definition milliseconds_of_fraction :: "string \<Rightarrow> nat" where
  "milliseconds_of_fraction f = toNumber (padEnd 3 (CHR ''0'') f)"

definition matches_grammar :: "string \<Rightarrow> bool" where
  "matches_grammar s =
     (\<exists>h. hour_text h \<and>
        (s = h \<or>
         (\<exists>mm. sixty_text mm \<and>
            (s = h @ '':'' @ mm \<or>
             (\<exists>ss. sixty_text ss \<and>
                (s = h @ '':'' @ mm @ '':'' @ ss \<or>
                 (\<exists>f. fraction_text f \<and> s = h @ '':'' @ mm @ '':'' @ ss @ ''.'' @ f)))))))"

section \<open>The schedule\<close>

text \<open>
  The body of the effect of \<^verbatim>\<open>useCurrentDate\<close> resolves the next and the previous
  anchor and arms two timers. \<open>nextRefresh\<close> and \<open>prevRefresh\<close> are the two assignments of
  the branch with anchors; \<^verbatim>\<open>find\<close> is \<^const>\<open>find\<close>, and \<^verbatim>\<open>??\<close> takes the other
  operand exactly when \<^verbatim>\<open>find\<close> found nothing. The list is never empty there: the effect
  throws before (\<^verbatim>\<open>refreshes[0]\<close> is only read behind that check).
\<close>

definition nextRefresh :: "int list \<Rightarrow> int \<Rightarrow> int \<Rightarrow> int" where
  "nextRefresh refreshes currentMidnightTime now =
     currentMidnightTime +
       (case find (\<lambda>v. currentMidnightTime + v \<ge> now) refreshes of
          Some v \<Rightarrow> v
        | None \<Rightarrow> TWENTY_FOUR_HOURS + refreshes ! 0)"

text \<open>
  \<^verbatim>\<open>refreshes.reverse()\<close> turns the array around in place, so \<^verbatim>\<open>refreshes[0]\<close> in the
  second assignment is the last, largest offset.
\<close>

definition prevRefresh :: "int list \<Rightarrow> int \<Rightarrow> int \<Rightarrow> int" where
  "prevRefresh refreshes currentMidnightTime now =
     (let reversed = rev refreshes
      in currentMidnightTime +
           (case find (\<lambda>v. currentMidnightTime + v < now) reversed of
              Some v \<Rightarrow> v
            | None \<Rightarrow> TWENTY_FOUR_HOURS + reversed ! 0))"

text \<open>
  \<^verbatim>\<open>setIntervalRelativeTo(fn, fromTime, ms)\<close> arms a timeout of
  \<^verbatim>\<open>ms - ((Date.now() - fromTime) % ms)\<close> whose callback calls \<^verbatim>\<open>fn\<close> and starts
  \<^verbatim>\<open>setInterval(fn, ms)\<close>. The timer is recorded by the delay of its first fire and its
  period; with timers that fire on time, fire number \<open>k\<close> happens at \<open>fire_instant\<close>.
\<close>

record interval_timer =
  first_delay :: int
  period :: int

definition setIntervalRelativeTo :: "int \<Rightarrow> int \<Rightarrow> int \<Rightarrow> interval_timer" where
  "setIntervalRelativeTo now fromTime ms =
     \<lparr>first_delay = ms - js_rem (now - fromTime) ms, period = ms\<rparr>"

definition fire_instant :: "int \<Rightarrow> interval_timer \<Rightarrow> nat \<Rightarrow> int" where
  "fire_instant now t k = now + first_delay t + int k * period t"

text \<open>The options of the hook; \<open>None\<close> is a property that is absent (or \<^verbatim>\<open>null\<close>).\<close>

record UseCurrentDateOptions =
  utc :: "bool option"
  refreshAt :: "RefreshAtOption option"
  returnCurrentTime :: "bool option"
  interval :: "int option"

text \<open>
  What the effect leaves armed: \<^verbatim>\<open>setTimeout(refresh, nextRefresh - now)\<close> and the timer
  of \<^verbatim>\<open>setIntervalRelativeTo(refresh, prevRefresh, int)\<close>.
\<close>

record schedule =
  timeout_delay :: int
  repeating :: interval_timer

definition arm_timers :: "int \<Rightarrow> int \<Rightarrow> int \<Rightarrow> int \<Rightarrow> schedule" where
  "arm_timers nextR prevR now ms =
     \<lparr>timeout_delay = nextR - now, repeating = setIntervalRelativeTo now prevR ms\<rparr>"

text \<open>
  The callback of \<^verbatim>\<open>useEffect\<close>, given the midnight of the current day and the current
  instant. A throw leaves nothing armed: the timers are set in the last two statements.
  The two readings of the clock in one run, in the effect and in
  \<^verbatim>\<open>setIntervalRelativeTo\<close>, are taken to be the same instant.
\<close>

definition useEffect_callback :: "UseCurrentDateOptions \<Rightarrow> int \<Rightarrow> int \<Rightarrow> error + schedule" where
  "useEffect_callback options currentMidnightTime now =
     (let ms = (case interval options of None \<Rightarrow> TWENTY_FOUR_HOURS | Some i \<Rightarrow> i);
          tomorrowMidnightTime = currentMidnightTime + TWENTY_FOUR_HOURS
      in case refreshAt options of
           None \<Rightarrow> Inr (arm_timers tomorrowMidnightTime currentMidnightTime now ms)
         | Some r \<Rightarrow>
             (case getRefreshValues r of
                Inl e \<Rightarrow> Inl e
              | Inr refreshes \<Rightarrow>
                  if length refreshes = 0 then Inl EmptyAnchorSet
                  else Inr (arm_timers (nextRefresh refreshes currentMidnightTime now)
                                (prevRefresh refreshes currentMidnightTime now) now ms)))"

text \<open>
  The clock and the time zone of the host: the current instant and the start of the
  current local day. \<^verbatim>\<open>setUTCHours(0, 0, 0, 0)\<close> rounds the instant down to a multiple
  of 24 hours.
\<close>

record environment =
  clock :: int
  localMidnight :: int

definition getCurrentMidnight :: "environment \<Rightarrow> bool option \<Rightarrow> int" where
  "getCurrentMidnight env utc_flag =
     (if utc_flag = Some True then clock env - clock env mod 86400000 else localMidnight env)"

text \<open>
  \<^verbatim>\<open>returnCurrentTime ??= int != null || Array.isArray(refreshAt) && refreshAt.length > 1\<close>
\<close>

definition returnCurrentTime_or_default :: "UseCurrentDateOptions \<Rightarrow> bool" where
  "returnCurrentTime_or_default options =
     (case returnCurrentTime options of
        Some b \<Rightarrow> b
      | None \<Rightarrow>
          interval options \<noteq> None
          \<or> (case refreshAt options of Some (Array vs) \<Rightarrow> length vs > 1 | _ \<Rightarrow> False))"

text \<open>The value of the hook: \<^verbatim>\<open>returnCurrentTime ? new Date() : getCurrentMidnight(utc)\<close>.\<close>

definition useCurrentDate :: "environment \<Rightarrow> UseCurrentDateOptions \<Rightarrow> int" where
  "useCurrentDate env options =
     (if returnCurrentTime_or_default options then clock env
      else getCurrentMidnight env (utc options))"

section \<open>Numeric anchors\<close>

lemma js_rem_nonneg: "0 \<le> a \<Longrightarrow> 0 < b \<Longrightarrow> js_rem a b = a mod b"
  by (cases "a = 0") (simp_all add: js_rem_def)

lemma js_rem_neg: "a < 0 \<Longrightarrow> 0 < b \<Longrightarrow> js_rem a b = - ((- a) mod b)"
  by (simp add: js_rem_def)

text \<open>
  Claim C3, as the code has it. A numeric anchor is normalised by the truncated
  remainder. For a non-negative anchor \<open>n\<close> the result is
  \<open>((n mod 86400000) + 86400000) mod 86400000\<close>, non-negative and below 24 hours. For a
  negative anchor the sign of the remainder follows \<open>n\<close>: the result is
  \<open>- ((- n) mod 86400000)\<close>, which lies above minus 24 hours and is at most zero.
\<close>

theorem numeric_anchor_remainder:
  "(0 \<le> n \<longrightarrow>
      getRefreshValues (Single (RNumber n)) = Inr [((n mod 86400000) + 86400000) mod 86400000]
      \<and> 0 \<le> ((n mod 86400000) + 86400000) mod 86400000
      \<and> ((n mod 86400000) + 86400000) mod 86400000 < TWENTY_FOUR_HOURS)
   \<and> (n < 0 \<longrightarrow>
      getRefreshValues (Single (RNumber n)) = Inr [- ((- n) mod 86400000)]
      \<and> - TWENTY_FOUR_HOURS < - ((- n) mod 86400000)
      \<and> - ((- n) mod 86400000) \<le> 0)"
proof -
  have day: "TWENTY_FOUR_HOURS = 86400000"
    by (simp add: TWENTY_FOUR_HOURS_def)
  have pos: "0 \<le> n \<Longrightarrow> js_rem n TWENTY_FOUR_HOURS = ((n mod 86400000) + 86400000) mod 86400000"
    by (simp add: js_rem_nonneg day)
  have neg: "n < 0 \<Longrightarrow> js_rem n TWENTY_FOUR_HOURS = - ((- n) mod 86400000)"
    by (simp add: js_rem_neg day)
  show ?thesis
    using pos neg by (simp add: getRefreshValues_def day)
qed

theorem numeric_anchor_remainder_witness:
  "(0::int) \<le> 90000000
   \<and> getRefreshValues (Single (RNumber 90000000)) = Inr [3600000]
   \<and> (- 90000001 :: int) < 0
   \<and> getRefreshValues (Single (RNumber (- 90000001))) = Inr [- 3600001]"
  using numeric_anchor_remainder [of 90000000] numeric_anchor_remainder [of "- 90000001"]
  by simp

text \<open>
  The claim as the specification words it fails on a negative anchor: \<open>- 1\<close> stays
  \<open>- 1\<close>, where the formula of the claim gives \<open>86399999\<close>.
\<close>

theorem numeric_anchor_negative_counterexample:
  "getRefreshValues (Single (RNumber (- 1))) = Inr [- 1]
   \<and> getRefreshValues (Single (RNumber (- 1)))
       \<noteq> Inr [(((- 1) mod 86400000) + 86400000) mod 86400000]
   \<and> \<not> (0 \<le> js_rem (- 1) TWENTY_FOUR_HOURS)"
  by (simp add: getRefreshValues_def js_rem_def TWENTY_FOUR_HOURS_def)

section \<open>The pattern and the grammar\<close>

lemma isDigit_cases:
  "isDigit c \<longleftrightarrow> c = CHR ''0'' \<or> c = CHR ''1'' \<or> c = CHR ''2'' \<or> c = CHR ''3'' \<or> c = CHR ''4''
     \<or> c = CHR ''5'' \<or> c = CHR ''6'' \<or> c = CHR ''7'' \<or> c = CHR ''8'' \<or> c = CHR ''9''"
  by (auto simp: isDigit_def)

lemma toNumber_two: "toNumber [a, b] = 10 * digitValue a + digitValue b"
  by (simp add: toNumber_def)

lemma toNumber_one: "toNumber [a] = digitValue a"
  by (simp add: toNumber_def)

lemma length_two_iff: "length t = 2 \<longleftrightarrow> (\<exists>a b. t = [a, b])"
  by (cases t; cases "tl t") auto

lemma digit_below_six:
  "isDigit a \<Longrightarrow> isDigit b \<Longrightarrow> 10 * digitValue a + digitValue b \<le> 59 \<longleftrightarrow> a \<in> set ''012345''"
  unfolding isDigit_cases by (elim disjE) (simp_all add: digitValue_def)

lemma sixty_text_iff: "sixty_text t \<longleftrightarrow> (\<exists>a b. t = [a, b] \<and> a \<in> set ''012345'' \<and> isDigit b)"
proof
  assume "sixty_text t"
  then obtain a b where t: "t = [a, b]" and d: "isDigit a" "isDigit b"
    and n: "10 * digitValue a + digitValue b \<le> 59"
    by (auto simp: sixty_text_def length_two_iff toNumber_two)
  then show "\<exists>a b. t = [a, b] \<and> a \<in> set ''012345'' \<and> isDigit b"
    using digit_below_six by blast
next
  assume "\<exists>a b. t = [a, b] \<and> a \<in> set ''012345'' \<and> isDigit b"
  then obtain a b where t: "t = [a, b]" and a: "a \<in> set ''012345''" and b: "isDigit b"
    by blast
  have da: "isDigit a" using a by (auto simp: isDigit_def)
  then have "10 * digitValue a + digitValue b \<le> 59"
    using a b digit_below_six by blast
  then show "sixty_text t"
    using t da b by (simp add: sixty_text_def toNumber_two)
qed

lemma hour_two_digits:
  "isDigit a \<Longrightarrow> isDigit b \<Longrightarrow>
     10 * digitValue a + digitValue b \<le> 23
       \<longleftrightarrow> a \<in> set ''01'' \<or> (a = CHR ''2'' \<and> b \<in> set ''0123'')"
  unfolding isDigit_cases by (elim disjE) (simp_all add: digitValue_def)

lemma hour_one_digit: "isDigit a \<Longrightarrow> digitValue a \<le> 23"
  unfolding isDigit_cases by (elim disjE) (simp_all add: digitValue_def)

lemma hour_text_iff:
  "hour_text t \<longleftrightarrow>
     (\<exists>a. t = [a] \<and> isDigit a)
     \<or> (\<exists>a b. t = [a, b] \<and> isDigit a \<and> isDigit b
           \<and> (a \<in> set ''01'' \<or> (a = CHR ''2'' \<and> b \<in> set ''0123'')))"
proof -
  have one: "(length t = 1 \<and> list_all isDigit t \<and> toNumber t \<le> 23) \<longleftrightarrow> (\<exists>a. t = [a] \<and> isDigit a)"
    by (cases t) (auto simp: toNumber_one hour_one_digit)
  have two: "(length t = 2 \<and> list_all isDigit t \<and> toNumber t \<le> 23)
      \<longleftrightarrow> (\<exists>a b. t = [a, b] \<and> isDigit a \<and> isDigit b
           \<and> (a \<in> set ''01'' \<or> (a = CHR ''2'' \<and> b \<in> set ''0123'')))"
  proof
    assume "length t = 2 \<and> list_all isDigit t \<and> toNumber t \<le> 23"
    then obtain a b where t: "t = [a, b]" and d: "isDigit a" "isDigit b"
      and n: "10 * digitValue a + digitValue b \<le> 23"
      by (auto simp: length_two_iff toNumber_two)
    from n hour_two_digits [OF d]
    have "a \<in> set ''01'' \<or> (a = CHR ''2'' \<and> b \<in> set ''0123'')" by blast
    with t d show "\<exists>a b. t = [a, b] \<and> isDigit a \<and> isDigit b
           \<and> (a \<in> set ''01'' \<or> (a = CHR ''2'' \<and> b \<in> set ''0123''))" by blast
  next
    assume "\<exists>a b. t = [a, b] \<and> isDigit a \<and> isDigit b
           \<and> (a \<in> set ''01'' \<or> (a = CHR ''2'' \<and> b \<in> set ''0123''))"
    then obtain a b where t: "t = [a, b]" and d: "isDigit a" "isDigit b"
      and h: "a \<in> set ''01'' \<or> (a = CHR ''2'' \<and> b \<in> set ''0123'')"
      by blast
    from h hour_two_digits [OF d]
    have "10 * digitValue a + digitValue b \<le> 23" by blast
    then show "length t = 2 \<and> list_all isDigit t \<and> toNumber t \<le> 23"
      using t d by (simp add: toNumber_two)
  qed
  have "hour_text t \<longleftrightarrow> (length t = 1 \<and> list_all isDigit t \<and> toNumber t \<le> 23)
      \<or> (length t = 2 \<and> list_all isDigit t \<and> toNumber t \<le> 23)"
    by (auto simp: hour_text_def)
  then show ?thesis
    unfolding one two .
qed

lemma match_fraction_iff:
  "match_fraction r \<noteq> None \<longleftrightarrow> r = [] \<or> (\<exists>f. fraction_text f \<and> r = ''.'' @ f)"
  by (cases r) (auto simp: fraction_text_def)

lemma colon_sixty_prefix:
  "(c = CHR '':'' \<and> a \<in> set ''012345'' \<and> isDigit b \<and> P r)
     \<longleftrightarrow> (\<exists>t r'. sixty_text t \<and> c # a # b # r = '':'' @ t @ r' \<and> P r')"
proof
  assume l: "c = CHR '':'' \<and> a \<in> set ''012345'' \<and> isDigit b \<and> P r"
  then have "sixty_text [a, b]"
    unfolding sixty_text_iff by blast
  moreover have "c # a # b # r = '':'' @ [a, b] @ r"
    using l by simp
  ultimately show "\<exists>t r'. sixty_text t \<and> c # a # b # r = '':'' @ t @ r' \<and> P r'"
    using l by blast
next
  assume "\<exists>t r'. sixty_text t \<and> c # a # b # r = '':'' @ t @ r' \<and> P r'"
  then obtain t r' where t: "sixty_text t" and e: "c # a # b # r = '':'' @ t @ r'" and p: "P r'"
    by blast
  from t obtain a' b' where t': "t = [a', b']" and d: "a' \<in> set ''012345''" "isDigit b'"
    unfolding sixty_text_iff by blast
  have "c = CHR '':''" "a = a'" "b = b'" "r = r'"
    using e unfolding t' by simp_all
  then show "c = CHR '':'' \<and> a \<in> set ''012345'' \<and> isDigit b \<and> P r"
    using d p by blast
qed

lemma bex_snd: "(\<exists>x\<in>S. P (snd x)) \<longleftrightarrow> (\<exists>h r. (h, r) \<in> S \<and> P r)"
proof
  assume "\<exists>x\<in>S. P (snd x)"
  then obtain x where "x \<in> S" "P (snd x)" by blast
  then have "(fst x, snd x) \<in> S \<and> P (snd x)" by simp
  then show "\<exists>h r. (h, r) \<in> S \<and> P r" by blast
next
  assume "\<exists>h r. (h, r) \<in> S \<and> P r"
  then obtain h r where "(h, r) \<in> S" "P (snd (h, r))" by auto
  then show "\<exists>x\<in>S. P (snd x)" by blast
qed

lemma match_seconds_iff:
  "match_seconds r \<noteq> None
     \<longleftrightarrow> r = [] \<or> (\<exists>ss r'. sixty_text ss \<and> r = '':'' @ ss @ r' \<and> match_fraction r' \<noteq> None)"
proof (cases r rule: match_seconds.cases)
  case 1
  then show ?thesis by simp
next
  case (2 c a b r')
  have "match_seconds r \<noteq> None
      \<longleftrightarrow> c = CHR '':'' \<and> a \<in> set ''012345'' \<and> isDigit b \<and> match_fraction r' \<noteq> None"
    unfolding 2 by (auto simp del: set_simps)
  also have "\<dots> \<longleftrightarrow> (\<exists>ss r''. sixty_text ss \<and> r = '':'' @ ss @ r'' \<and> match_fraction r'' \<noteq> None)"
    unfolding 2 by (rule colon_sixty_prefix)
  finally show ?thesis using 2 by simp
qed (auto simp: sixty_text_iff)

lemma match_minutes_iff:
  "match_minutes r \<noteq> None
     \<longleftrightarrow> r = [] \<or> (\<exists>mm r'. sixty_text mm \<and> r = '':'' @ mm @ r' \<and> match_seconds r' \<noteq> None)"
proof (cases r rule: match_minutes.cases)
  case 1
  then show ?thesis by simp
next
  case (2 c a b r')
  have "match_minutes r \<noteq> None
      \<longleftrightarrow> c = CHR '':'' \<and> a \<in> set ''012345'' \<and> isDigit b \<and> match_seconds r' \<noteq> None"
    unfolding 2 by (auto simp del: set_simps)
  also have "\<dots> \<longleftrightarrow> (\<exists>mm r''. sixty_text mm \<and> r = '':'' @ mm @ r'' \<and> match_seconds r'' \<noteq> None)"
    unfolding 2 by (rule colon_sixty_prefix)
  finally show ?thesis using 2 by simp
qed (auto simp: sixty_text_iff)

lemma first_match_iff: "first_match f xs \<noteq> None \<longleftrightarrow> (\<exists>x\<in>set xs. f x \<noteq> None)"
  by (induction xs) (auto split: option.splits)

lemma three_alternatives:
  "(h, r) \<in> set ((if A then [(x1, y1)] else []) @ (if B then [(x2, y2)] else [])
        @ (if C then [(x3, y3)] else []))
     \<longleftrightarrow> (A \<and> h = x1 \<and> r = y1) \<or> (B \<and> h = x2 \<and> r = y2) \<or> (C \<and> h = x3 \<and> r = y3)"
  by auto

lemma hour_alternatives_long:
  "(h, r) \<in> set (hour_alternatives (a # b # s))
     \<longleftrightarrow> (h = [a] \<and> r = b # s \<and> isDigit a)
         \<or> (h = [a, b] \<and> r = s
              \<and> ((a \<in> set ''01'' \<and> isDigit b) \<or> (a = CHR ''2'' \<and> b \<in> set ''0123'')))"
  unfolding hour_alternatives_def list.case three_alternatives by blast

lemma hour_alternatives_short:
  "(h, r) \<in> set (hour_alternatives [a]) \<longleftrightarrow> h = [a] \<and> r = [] \<and> isDigit a"
  unfolding hour_alternatives_def list.case by simp

lemma hour_alternatives_iff:
  "(h, r) \<in> set (hour_alternatives s) \<longleftrightarrow> hour_text h \<and> s = h @ r"
proof -
  have d01: "x \<in> set ''01'' \<Longrightarrow> isDigit x" and d2: "isDigit (CHR ''2'')" for x
    by (auto simp: isDigit_def)
  show ?thesis
  proof (cases s)
    case Nil
    have "\<not> hour_text []" by (simp add: hour_text_def)
    then show ?thesis
      unfolding Nil by (auto simp: hour_alternatives_def)
  next
    case (Cons a s')
    show ?thesis
    proof (cases s')
      case Nil
      have "hour_text h \<and> [a] = h @ r \<longleftrightarrow> h = [a] \<and> r = [] \<and> isDigit a"
      proof
        assume l: "hour_text h \<and> [a] = h @ r"
        then have "h \<noteq> []" by (auto simp: hour_text_def)
        then have "h = [a]" "r = []"
          using l by (auto simp: append_eq_Cons_conv Cons_eq_append_conv)
        moreover have "isDigit a"
          using l \<open>h = [a]\<close> by (simp add: hour_text_def)
        ultimately show "h = [a] \<and> r = [] \<and> isDigit a" by blast
      next
        assume "h = [a] \<and> r = [] \<and> isDigit a"
        then show "hour_text h \<and> [a] = h @ r"
          unfolding hour_text_iff by simp
      qed
      then show ?thesis
        unfolding \<open>s = a # s'\<close> Nil hour_alternatives_short by simp
    next
      case (Cons b s'')
      have "hour_text h \<and> a # b # s'' = h @ r
          \<longleftrightarrow> (h = [a] \<and> r = b # s'' \<and> isDigit a)
         \<or> (h = [a, b] \<and> r = s''
              \<and> ((a \<in> set ''01'' \<and> isDigit b) \<or> (a = CHR ''2'' \<and> b \<in> set ''0123'')))"
      proof
        assume l: "hour_text h \<and> a # b # s'' = h @ r"
        then consider (one) x where "h = [x]" "isDigit x"
          | (two) x y where "h = [x, y]" "isDigit x" "isDigit y"
              "x \<in> set ''01'' \<or> (x = CHR ''2'' \<and> y \<in> set ''0123'')"
          unfolding hour_text_iff by blast
        then show "(h = [a] \<and> r = b # s'' \<and> isDigit a)
         \<or> (h = [a, b] \<and> r = s''
              \<and> ((a \<in> set ''01'' \<and> isDigit b) \<or> (a = CHR ''2'' \<and> b \<in> set ''0123'')))"
        proof cases
          case one
          have "a = x" "r = b # s''"
            using l unfolding one(1) by simp_all
          then show ?thesis using one by blast
        next
          case two
          have "a = x" "b = y" "r = s''"
            using l unfolding two(1) by simp_all
          then show ?thesis using two by blast
        qed
      next
        assume "(h = [a] \<and> r = b # s'' \<and> isDigit a)
         \<or> (h = [a, b] \<and> r = s''
              \<and> ((a \<in> set ''01'' \<and> isDigit b) \<or> (a = CHR ''2'' \<and> b \<in> set ''0123'')))"
        then consider (one) "h = [a]" "r = b # s''" "isDigit a"
          | (low) "h = [a, b]" "r = s''" "a \<in> set ''01''" "isDigit b"
          | (high) "h = [a, b]" "r = s''" "a = CHR ''2''" "b \<in> set ''0123''"
          by blast
        then show "hour_text h \<and> a # b # s'' = h @ r"
        proof cases
          case one
          then show ?thesis unfolding hour_text_iff by simp
        next
          case low
          have "isDigit a" using low(3) by (rule d01)
          then have "hour_text [a, b]"
            unfolding hour_text_iff using low by blast
          then show ?thesis using low by simp
        next
          case high
          have "isDigit a" "isDigit b"
            using high d2 by (auto simp: isDigit_def)
          then have "hour_text [a, b]"
            unfolding hour_text_iff using high by blast
          then show ?thesis using high by simp
        qed
      qed
      then show ?thesis
        unfolding \<open>s = a # s'\<close> Cons hour_alternatives_long by simp
    qed
  qed
qed

lemma TIME_REGEX_exec_iff:
  "TIME_REGEX_exec s \<noteq> None \<longleftrightarrow> (\<exists>h r. hour_text h \<and> s = h @ r \<and> match_minutes r \<noteq> None)"
proof -
  have "TIME_REGEX_exec s \<noteq> None
      \<longleftrightarrow> (\<exists>x\<in>set (hour_alternatives s). match_minutes (snd x) \<noteq> None)"
    unfolding TIME_REGEX_exec_def first_match_iff
    by (simp add: case_prod_beta)
  also have "\<dots> \<longleftrightarrow> (\<exists>h r. (h, r) \<in> set (hour_alternatives s) \<and> match_minutes r \<noteq> None)"
    by (rule bex_snd)
  finally show ?thesis
    unfolding hour_alternatives_iff by blast
qed

lemma fraction_tail:
  "(\<exists>r. x = p @ r \<and> match_fraction r \<noteq> None)
     \<longleftrightarrow> x = p \<or> (\<exists>f. fraction_text f \<and> x = p @ ''.'' @ f)"
  unfolding match_fraction_iff by auto

lemma seconds_tail:
  "(\<exists>r. x = p @ r \<and> match_seconds r \<noteq> None)
     \<longleftrightarrow> x = p
         \<or> (\<exists>ss. sixty_text ss \<and>
               (x = p @ '':'' @ ss \<or> (\<exists>f. fraction_text f \<and> x = p @ '':'' @ ss @ ''.'' @ f)))"
proof -
  have "(\<exists>r. x = p @ r \<and> match_seconds r \<noteq> None)
      \<longleftrightarrow> x = p \<or> (\<exists>ss. sixty_text ss \<and> (\<exists>r'. x = (p @ '':'' @ ss) @ r' \<and> match_fraction r' \<noteq> None))"
    unfolding match_seconds_iff by (simp only: append_assoc) blast
  then show ?thesis
    unfolding fraction_tail by (simp only: append_assoc)
qed

lemma minutes_tail:
  "(\<exists>r. x = p @ r \<and> match_minutes r \<noteq> None)
     \<longleftrightarrow> x = p
         \<or> (\<exists>mm. sixty_text mm \<and>
               (x = p @ '':'' @ mm \<or>
                (\<exists>ss. sixty_text ss \<and>
                   (x = p @ '':'' @ mm @ '':'' @ ss \<or>
                    (\<exists>f. fraction_text f \<and> x = p @ '':'' @ mm @ '':'' @ ss @ ''.'' @ f)))))"
proof -
  have "(\<exists>r. x = p @ r \<and> match_minutes r \<noteq> None)
      \<longleftrightarrow> x = p \<or> (\<exists>mm. sixty_text mm \<and> (\<exists>r'. x = (p @ '':'' @ mm) @ r' \<and> match_seconds r' \<noteq> None))"
    unfolding match_minutes_iff by (simp only: append_assoc) blast
  then show ?thesis
    unfolding seconds_tail by (simp only: append_assoc)
qed

text \<open>The pattern of the source accepts exactly the texts of the grammar.\<close>

lemma TIME_REGEX_matches_grammar: "TIME_REGEX_exec s \<noteq> None \<longleftrightarrow> matches_grammar s"
proof -
  have "TIME_REGEX_exec s \<noteq> None
      \<longleftrightarrow> (\<exists>h. hour_text h \<and> (\<exists>r. s = h @ r \<and> match_minutes r \<noteq> None))"
    unfolding TIME_REGEX_exec_iff by blast
  then show ?thesis
    unfolding minutes_tail matches_grammar_def .
qed

section \<open>Textual anchors\<close>

lemma first_match_Some: "first_match f xs = Some y \<Longrightarrow> \<exists>x\<in>set xs. f x = Some y"
  by (induction xs) (auto split: option.splits)

lemma isDigit_not_space: "isDigit c \<Longrightarrow> \<not> isWhiteSpace c"
  unfolding isDigit_cases by (elim disjE) (simp_all add: isWhiteSpace_def)

lemma dropWhile_head: "xs \<noteq> [] \<Longrightarrow> \<not> P (hd xs) \<Longrightarrow> dropWhile P xs = xs"
  by (cases xs) simp_all

lemma trim_digits_ends:
  assumes "s \<noteq> []" "isDigit (hd s)" "isDigit (last s)"
  shows "trim s = s"
proof -
  have a: "dropWhile isWhiteSpace s = s"
    using assms(1,2) by (intro dropWhile_head isDigit_not_space)
  have "rev s \<noteq> []" "hd (rev s) = last s"
    using assms(1) by (simp_all add: hd_rev)
  then have "dropWhile isWhiteSpace (rev s) = rev s"
    using assms(3) by (intro dropWhile_head) (simp_all add: isDigit_not_space)
  then show ?thesis
    using a by (simp add: trim_def)
qed

lemma hour_text_digits: "hour_text h \<Longrightarrow> h \<noteq> [] \<and> list_all isDigit h"
  by (auto simp: hour_text_def)

lemma match_minutes_head:
  "match_minutes r \<noteq> None \<Longrightarrow> r = [] \<or> hd r = CHR '':''"
  by (cases r rule: match_minutes.cases) (auto split: if_splits)

lemma takeWhile_prefix:
  "list_all P h \<Longrightarrow> r = [] \<or> \<not> P (hd r) \<Longrightarrow> takeWhile P (h @ r) = h"
  by (induction h) (auto intro: takeWhile_eq_Nil_iff [THEN iffD2])

lemma hour_split_unique:
  assumes "hour_text h" "hour_text h'" "h @ r = h' @ r'"
    and "r = [] \<or> hd r = CHR '':''" "r' = [] \<or> hd r' = CHR '':''"
  shows "h = h' \<and> r = r'"
proof -
  have nd: "\<not> isDigit (CHR '':'')" by (simp add: isDigit_def)
  have d: "list_all isDigit h" "list_all isDigit h'"
    using assms(1,2) by (simp_all add: hour_text_def)
  have "r = [] \<or> \<not> isDigit (hd r)" "r' = [] \<or> \<not> isDigit (hd r')"
    using assms(4,5) nd by auto
  then have t: "takeWhile isDigit (h @ r) = h" "takeWhile isDigit (h' @ r') = h'"
    using d by (simp_all add: takeWhile_prefix)
  have "h = takeWhile isDigit (h @ r)" by (simp only: t(1))
  also have "\<dots> = takeWhile isDigit (h' @ r')" by (simp only: assms(3))
  also have "\<dots> = h'" by (simp only: t(2))
  finally have h: "h = h'" .
  have "h' @ r = h' @ r'" using assms(3) unfolding h .
  then have "r = r'" by (simp only: same_append_eq)
  with h show ?thesis by (intro conjI)
qed

lemma TIME_REGEX_exec_groups:
  assumes "hour_text h" and "match_minutes r = Some (m, sec, f)"
  shows "TIME_REGEX_exec (h @ r) = Some [Some h, m, sec, f]"
proof -
  define F :: "string \<times> string \<Rightarrow> string option list option"
    where "F = (\<lambda>(h, r). map_option (\<lambda>(m, sec, f). [Some h, m, sec, f]) (match_minutes r))"
  have exec: "TIME_REGEX_exec (h @ r) = first_match F (hour_alternatives (h @ r))"
    by (simp only: TIME_REGEX_exec_def F_def)
  have "\<exists>h' r'. hour_text h' \<and> h @ r = h' @ r' \<and> match_minutes r' \<noteq> None"
    using assms by (intro exI [of _ h] exI [of _ r]) simp
  then have "TIME_REGEX_exec (h @ r) \<noteq> None"
    by (simp only: TIME_REGEX_exec_iff)
  then obtain g where g: "first_match F (hour_alternatives (h @ r)) = Some g"
    unfolding exec by blast
  from first_match_Some [OF g]
  obtain x where x: "x \<in> set (hour_alternatives (h @ r))" "F x = Some g"
    by blast
  obtain h' r' where hr: "x = (h', r')" by (cases x)
  have "(h', r') \<in> set (hour_alternatives (h @ r))"
    using x(1) unfolding hr .
  then have alt: "hour_text h'" "h @ r = h' @ r'"
    by (simp_all only: hour_alternatives_iff)
  have Fx: "map_option (\<lambda>(m, sec, f). [Some h', m, sec, f]) (match_minutes r') = Some g"
    using x(2) unfolding hr F_def by simp
  then have ok: "match_minutes r' \<noteq> None"
    by (cases "match_minutes r'") simp_all
  have r: "r = [] \<or> hd r = CHR '':''"
    by (rule match_minutes_head) (simp add: assms(2))
  have r': "r' = [] \<or> hd r' = CHR '':''"
    using ok by (rule match_minutes_head)
  have same: "h = h' \<and> r = r'"
    using assms(1) alt r r' by (rule hour_split_unique)
  have "g = [Some h, m, sec, f]"
    using Fx assms(2) same by simp
  then show ?thesis
    unfolding exec g by simp
qed

lemma sixty_textD: "sixty_text t \<Longrightarrow> \<exists>a b. t = [a, b] \<and> a \<in> set ''012345'' \<and> isDigit b"
  by (simp only: sixty_text_iff)

lemma match_fraction_text: "fraction_text f \<Longrightarrow> match_fraction (''.'' @ f) = Some (Some f)"
  by (simp add: fraction_text_def)

lemma match_seconds_text:
  "sixty_text ss \<Longrightarrow> match_seconds ('':'' @ ss @ r) = map_option (\<lambda>f. (Some ss, f)) (match_fraction r)"
  by (drule sixty_textD) (elim exE conjE, simp del: set_simps)

lemma match_minutes_text:
  "sixty_text mm \<Longrightarrow> match_minutes ('':'' @ mm @ r) = map_option (\<lambda>sf. (Some mm, sf)) (match_seconds r)"
  by (drule sixty_textD) (elim exE conjE, simp del: set_simps)


lemma trim_anchor:
  assumes "hour_text h" and "r = [] \<or> isDigit (last r)"
  shows "trim (h @ r) = h @ r"
proof (rule trim_digits_ends)
  have h: "h \<noteq> []" "list_all isDigit h"
    using assms(1) hour_text_digits by blast+
  show "h @ r \<noteq> []" using h by simp
  show "isDigit (hd (h @ r))"
    using h by (cases h) simp_all
  show "isDigit (last (h @ r))"
  proof (cases "r = []")
    case True
    then show ?thesis using h by (cases h rule: rev_cases) simp_all
  next
    case False
    then show ?thesis using assms(2) by simp
  qed
qed

lemma sixty_text_last: "sixty_text t \<Longrightarrow> isDigit (last (p @ t))"
  by (drule sixty_textD) auto

lemma fraction_text_last: "fraction_text t \<Longrightarrow> isDigit (last (p @ t))"
  by (cases t rule: rev_cases) (auto simp: fraction_text_def)

lemma timeSegments_groups:
  assumes "hour_text h" and "match_minutes r = Some (m, sec, f)" and "r = [] \<or> isDigit (last r)"
  shows "timeSegments (h @ r) = Some (map toNumber (List.map_filter id [Some h, m, sec, f]))"
  using TIME_REGEX_exec_groups [OF assms(1,2)] trim_anchor [OF assms(1,3)]
  by (simp add: timeSegments_def)

lemma refreshValue_hour:
  assumes "hour_text h"
  shows "refreshValue (RString h) = Inr (int (toNumber h) * 3600000)"
proof -
  have "timeSegments (h @ []) = Some (map toNumber (List.map_filter id [Some h, None, None, None]))"
    using assms by (intro timeSegments_groups) simp_all
  then have "timeSegments h = Some [toNumber h]"
    by (simp add: List.map_filter_simps)
  then show ?thesis
    by (simp add: padMilliseconds_def Date_UTC_1970_0_1_def argument_def)
qed

lemma refreshValue_minutes:
  assumes "hour_text h" "sixty_text mm"
  shows "refreshValue (RString (h @ '':'' @ mm))
           = Inr (int (toNumber h) * 3600000 + int (toNumber mm) * 60000)"
proof -
  have "match_minutes ('':'' @ mm @ []) = Some (Some mm, None, None)"
    using assms(2) by (simp only: match_minutes_text) simp
  then have "timeSegments (h @ '':'' @ mm)
      = Some (map toNumber (List.map_filter id [Some h, Some mm, None, None]))"
    using assms sixty_text_last [of mm "'':''"] by (intro timeSegments_groups) simp_all
  then have "timeSegments (h @ '':'' @ mm) = Some [toNumber h, toNumber mm]"
    by (simp add: List.map_filter_simps)
  then show ?thesis
    by (simp add: padMilliseconds_def Date_UTC_1970_0_1_def argument_def)
qed

lemma refreshValue_seconds:
  assumes "hour_text h" "sixty_text mm" "sixty_text ss"
  shows "refreshValue (RString (h @ '':'' @ mm @ '':'' @ ss))
           = Inr (int (toNumber h) * 3600000 + int (toNumber mm) * 60000
                  + int (toNumber ss) * 1000)"
proof -
  have "match_seconds ('':'' @ ss @ []) = Some (Some ss, None)"
    using assms(3) by (simp only: match_seconds_text) simp
  then have "match_minutes ('':'' @ mm @ '':'' @ ss) = Some (Some mm, Some ss, None)"
    using assms(2) by (simp only: match_minutes_text) simp
  then have "timeSegments (h @ '':'' @ mm @ '':'' @ ss)
      = Some (map toNumber (List.map_filter id [Some h, Some mm, Some ss, None]))"
    using assms sixty_text_last [of ss "'':'' @ mm @ '':''"]
    by (intro timeSegments_groups) simp_all
  then have "timeSegments (h @ '':'' @ mm @ '':'' @ ss) = Some [toNumber h, toNumber mm, toNumber ss]"
    by (simp add: List.map_filter_simps)
  then show ?thesis
    by (simp add: padMilliseconds_def Date_UTC_1970_0_1_def argument_def)
qed

lemma refreshValue_fraction:
  assumes "hour_text h" "sixty_text mm" "sixty_text ss" "fraction_text f"
  shows "refreshValue (RString (h @ '':'' @ mm @ '':'' @ ss @ ''.'' @ f))
           = Inr (int (toNumber h) * 3600000 + int (toNumber mm) * 60000
                  + int (toNumber ss) * 1000 + int (padded_fraction f))"
proof -
  have "match_seconds ('':'' @ ss @ ''.'' @ f) = Some (Some ss, Some f)"
    using assms(3,4) by (simp only: match_seconds_text match_fraction_text) simp
  then have "match_minutes ('':'' @ mm @ '':'' @ ss @ ''.'' @ f) = Some (Some mm, Some ss, Some f)"
    using assms(2) by (simp only: match_minutes_text) simp
  then have "timeSegments (h @ '':'' @ mm @ '':'' @ ss @ ''.'' @ f)
      = Some (map toNumber (List.map_filter id [Some h, Some mm, Some ss, Some f]))"
    using assms fraction_text_last [of f "'':'' @ mm @ '':'' @ ss @ ''.''"]
    by (intro timeSegments_groups) simp_all
  then have "timeSegments (h @ '':'' @ mm @ '':'' @ ss @ ''.'' @ f)
      = Some [toNumber h, toNumber mm, toNumber ss, toNumber f]"
    by (simp add: List.map_filter_simps)
  then show ?thesis
    by (simp add: padMilliseconds_def Date_UTC_1970_0_1_def argument_def padded_fraction_def)
qed

lemma digitValue_digitChar: "p < 10 \<Longrightarrow> digitValue (digitChar p) = p"
  by (simp add: digitValue_def digitChar_def)

lemma digit_facts:
  assumes "isDigit a"
  shows "digitValue a < 10" and "a = CHR ''0'' \<longleftrightarrow> digitValue a = 0"
  using assms unfolding isDigit_cases by (auto simp: digitValue_def)

lemma toNumber_three: "toNumber [a, b, c] = 100 * digitValue a + 10 * digitValue b + digitValue c"
  by (simp add: toNumber_def)

lemma padEnd_three:
  "padEnd 3 z [a] = [a, z, z]" "padEnd 3 z [a, b] = [a, b, z]" "padEnd 3 z [a, b, c] = [a, b, c]"
  by (simp_all add: padEnd_def numeral_2_eq_2)

lemma pad_toString_small: "n < 10 \<Longrightarrow> toNumber (padEnd 3 (CHR ''0'') (toString n)) = 100 * n"
  by (simp add: toString.simps [of n] padEnd_three toNumber_three digitValue_digitChar)
     (simp add: digitValue_def)

lemma pad_toString_medium:
  assumes "10 \<le> n" "n < 100"
  shows "toNumber (padEnd 3 (CHR ''0'') (toString n)) = 10 * n"
proof -
  have d: "n div 10 < 10" "n mod 10 < 10" using assms by simp_all
  have "toString n = [digitChar (n div 10), digitChar (n mod 10)]"
    using assms d by (simp add: toString.simps [of n] toString.simps [of "n div 10"])
  then have "toNumber (padEnd 3 (CHR ''0'') (toString n))
      = 100 * (n div 10) + 10 * (n mod 10) + digitValue (CHR ''0'')"
    using d by (simp add: padEnd_three toNumber_three digitValue_digitChar)
  also have "digitValue (CHR ''0'') = 0"
    by (simp add: digitValue_def)
  also have "100 * (n div 10) + 10 * (n mod 10) + 0 = 10 * n"
    by presburger
  finally show ?thesis .
qed

lemma padded_fraction_value:
  "padded_fraction f =
     (if toNumber f < 10 then 100 * toNumber f
      else if toNumber f < 100 then 10 * toNumber f else toNumber f)"
  by (simp add: padded_fraction_def pad_toString_small pad_toString_medium)

lemma fraction_text_cases:
  assumes "fraction_text f"
  obtains (one) a where "f = [a]" "isDigit a"
  | (two) a b where "f = [a, b]" "isDigit a" "isDigit b"
  | (three) a b c where "f = [a, b, c]" "isDigit a" "isDigit b" "isDigit c"
proof -
  from assms have l: "1 \<le> length f" "length f \<le> 3" and d: "list_all isDigit f"
    by (simp_all add: fraction_text_def)
  show ?thesis
  proof (cases f)
    case Nil
    then show ?thesis using l by simp
  next
    case f1: (Cons a t1)
    show ?thesis
    proof (cases t1)
      case Nil
      then show ?thesis using f1 d one by simp
    next
      case f2: (Cons b t2)
      show ?thesis
      proof (cases t2)
        case Nil
        then show ?thesis using f1 f2 d two by simp
      next
        case f3: (Cons c t3)
        then have "t3 = []" using l f1 f2 by simp
        then show ?thesis using f1 f2 f3 d three by simp
      qed
    qed
  qed
qed

lemma fraction_padding_agrees:
  assumes "fraction_text f"
  shows "padded_fraction f = milliseconds_of_fraction f \<longleftrightarrow> hd f \<noteq> CHR ''0'' \<or> toNumber f = 0"
  using assms
proof (cases rule: fraction_text_cases)
  case (one a)
  have z: "digitValue (CHR ''0'') = 0" by (simp add: digitValue_def)
  show ?thesis
    using digit_facts [OF one(2)] unfolding one(1)
    by (auto simp: padded_fraction_value milliseconds_of_fraction_def padEnd_three toNumber_one
        toNumber_three z)
next
  case (two a b)
  have z: "digitValue (CHR ''0'') = 0" by (simp add: digitValue_def)
  show ?thesis
    using digit_facts [OF two(2)] digit_facts [OF two(3)] unfolding two(1)
    by (auto simp: padded_fraction_value milliseconds_of_fraction_def padEnd_three toNumber_two
        toNumber_three z)
next
  case (three a b c)
  show ?thesis
    using digit_facts [OF three(2)] digit_facts [OF three(3)] digit_facts [OF three(4)]
    unfolding three(1)
    by (auto simp: padded_fraction_value milliseconds_of_fraction_def padEnd_three toNumber_three)
qed

text \<open>
  Claim C4. A textual anchor of the grammar should parse to hours, minutes, seconds and
  the fraction right-padded to milliseconds. The code does so for the anchors without a
  fraction; with a fraction the last summand is \<open>padded_fraction\<close>, which is the
  right-padded fraction exactly when the fraction does not start with \<^verbatim>\<open>0\<close> or is zero
  altogether. The code converts the fraction to a number before it pads, which drops
  the leading zeros: \<^verbatim>\<open>.05\<close> becomes 5, then \<^verbatim>\<open>500\<close>.
\<close>

theorem textual_anchor_value:
  assumes "hour_text h" and "sixty_text mm" and "sixty_text ss" and "fraction_text f"
  shows "getRefreshValues (Single (RString h)) = Inr [int (toNumber h) * 3600000]
         \<and> getRefreshValues (Single (RString (h @ '':'' @ mm)))
             = Inr [int (toNumber h) * 3600000 + int (toNumber mm) * 60000]
         \<and> getRefreshValues (Single (RString (h @ '':'' @ mm @ '':'' @ ss)))
             = Inr [int (toNumber h) * 3600000 + int (toNumber mm) * 60000
                    + int (toNumber ss) * 1000]
         \<and> getRefreshValues (Single (RString (h @ '':'' @ mm @ '':'' @ ss @ ''.'' @ f)))
             = Inr [int (toNumber h) * 3600000 + int (toNumber mm) * 60000
                    + int (toNumber ss) * 1000 + int (padded_fraction f)]
         \<and> (padded_fraction f = milliseconds_of_fraction f
              \<longleftrightarrow> hd f \<noteq> CHR ''0'' \<or> toNumber f = 0)"
proof -
  have single: "getRefreshValues (Single v) = Inr [x]" if "refreshValue v = Inr x" for v x
    using that by (simp add: getRefreshValues_def)
  show ?thesis
    using assms
    by (intro conjI single refreshValue_hour refreshValue_minutes refreshValue_seconds
        refreshValue_fraction fraction_padding_agrees)
qed

text \<open>
  \<^verbatim>\<open>8:30:55.05\<close> gives 30655500, where the components give 30655050.
\<close>

theorem textual_anchor_value_witness:
  "hour_text ''8'' \<and> sixty_text ''30'' \<and> sixty_text ''55'' \<and> fraction_text ''05''
   \<and> getRefreshValues (Single (RString ''8:30:55.05'')) = Inr [30655500]
   \<and> padded_fraction ''05'' = 500 \<and> milliseconds_of_fraction ''05'' = 50
   \<and> 8 * 3600000 + 30 * 60000 + 55 * 1000 + 50 = (30655050 :: int)"
proof -
  have h: "hour_text ''8''" "sixty_text ''30''" "sixty_text ''55''" "fraction_text ''05''"
    by (simp_all add: hour_text_def sixty_text_def fraction_text_def isDigit_def toNumber_def
        digitValue_def)
  have n: "toNumber ''8'' = 8" "toNumber ''30'' = 30" "toNumber ''55'' = 55"
    by (simp_all add: toNumber_def digitValue_def)
  have p: "padded_fraction ''05'' = 500" "milliseconds_of_fraction ''05'' = 50"
    by (simp_all add: padded_fraction_value milliseconds_of_fraction_def padEnd_three
        toNumber_two toNumber_three digitValue_def)
  have "getRefreshValues (Single (RString (''8'' @ '':'' @ ''30'' @ '':'' @ ''55'' @ ''.'' @ ''05'')))
      = Inr [int (toNumber ''8'') * 3600000 + int (toNumber ''30'') * 60000
                    + int (toNumber ''55'') * 1000 + int (padded_fraction ''05'')]"
    using textual_anchor_value [OF h] by (elim conjE)
  then have "getRefreshValues (Single (RString ''8:30:55.05'')) = Inr [30655500]"
    unfolding n p by simp
  then show ?thesis
    using h p by simp
qed

lemma fraction_examples:
  "getRefreshValues (Single (RString ''8:30:55.005'')) = Inr [30655500]
   \<and> getRefreshValues (Single (RString ''8:30:55.050'')) = Inr [30655500]
   \<and> getRefreshValues (Single (RString ''8:30:55.2'')) = Inr [30655200]
   \<and> getRefreshValues (Single (RString ''8:30:55.25'')) = Inr [30655250]
   \<and> getRefreshValues (Single (RString ''8:30:55.256'')) = Inr [30655256]"
  by code_simp

lemma map_throw_first_error:
  assumes "list_all (\<lambda>x. \<not> isl (f x)) pre" and "f x = Inl e"
  shows "map_throw f (pre @ x # post) = Inl e"
  using assms
proof (induction pre)
  case Nil
  then show ?case by simp
next
  case (Cons p pre)
  then show ?case by (cases "f p") auto
qed

text \<open>
  Claim C7. A textual anchor that, trimmed, is outside the grammar makes
  \<^verbatim>\<open>getRefreshValues\<close> throw the format error that quotes the anchor as it was given:
  when it is the only value, when it is alone in an array, and when it stands in an array
  behind values that parse, whatever follows it. The effect passes the error on.
\<close>

theorem malformed_anchor_rejected:
  assumes "\<not> matches_grammar (trim v)"
    and "list_all (\<lambda>x. \<not> throws x) before"
  shows "getRefreshValues (Single (RString v)) = Inl (InvalidFormat v)
         \<and> getRefreshValues (Array [RString v]) = Inl (InvalidFormat v)
         \<and> getRefreshValues (Array (before @ RString v # after)) = Inl (InvalidFormat v)
         \<and> useEffect_callback (options\<lparr>refreshAt := Some (Array (before @ RString v # after))\<rparr>) m now
             = Inl (InvalidFormat v)
         \<and> message (InvalidFormat v)
             = ''Invalid refreshAt value format.  Expected `h[:mm[:ss[.ms]]]`.  Received: ''
                 @ [CHR 0x27] @ v @ [CHR 0x27]"
proof -
  have "TIME_REGEX_exec (trim v) = None"
    using assms(1) TIME_REGEX_matches_grammar [of "trim v"] by simp
  then have e: "refreshValue (RString v) = Inl (InvalidFormat v)"
    by (simp add: timeSegments_def)
  have pre: "list_all (\<lambda>x. \<not> isl (refreshValue x)) before"
    using assms(2) by (simp add: throws_def)
  have "map_throw refreshValue (before @ RString v # after) = Inl (InvalidFormat v)"
    using pre e by (rule map_throw_first_error)
  then have "getRefreshValues (Array (before @ RString v # after)) = Inl (InvalidFormat v)"
    by (simp add: getRefreshValues_def)
  then show ?thesis
    using e by (simp add: getRefreshValues_def useEffect_callback_def)
qed

text \<open>The malformed strings that the specification lists, each in the three positions.\<close>

theorem malformed_anchor_rejected_witness:
  "list_all (\<lambda>v. \<not> matches_grammar (trim v)
       \<and> getRefreshValues (Single (RString v)) = Inl (InvalidFormat v)
       \<and> getRefreshValues (Array [RString v]) = Inl (InvalidFormat v)
       \<and> getRefreshValues (Array [RNumber 1, RString v, RNumber 3]) = Inl (InvalidFormat v))
     ['''', ''abc'', ''-1'', ''24'', ''8:'', ''8:60'', ''8:30:60'', ''8:30:55.2567'']"
proof -
  have b: "list_all (\<lambda>x. \<not> throws x) [RNumber 1]"
    by (simp add: throws_def)
  have "list_all (\<lambda>v. TIME_REGEX_exec (trim v) = None)
     ['''', ''abc'', ''-1'', ''24'', ''8:'', ''8:60'', ''8:30:60'', ''8:30:55.2567'']"
    by code_simp
  then have m: "list_all (\<lambda>v. \<not> matches_grammar (trim v))
     ['''', ''abc'', ''-1'', ''24'', ''8:'', ''8:60'', ''8:30:60'', ''8:30:55.2567'']"
    unfolding TIME_REGEX_matches_grammar [symmetric] by simp
  have "\<not> matches_grammar (trim v) \<Longrightarrow>
      getRefreshValues (Single (RString v)) = Inl (InvalidFormat v)
       \<and> getRefreshValues (Array [RString v]) = Inl (InvalidFormat v)
       \<and> getRefreshValues (Array [RNumber 1, RString v, RNumber 3]) = Inl (InvalidFormat v)" for v
    using malformed_anchor_rejected [OF _ b, of v "[RNumber 3]"] by simp
  then show ?thesis
    using m by simp
qed

section \<open>The order of the anchors\<close>

lemma map_throw_Inr_iff: "map_throw f xs = Inr ys \<longleftrightarrow> map f xs = map Inr ys"
proof (induction xs arbitrary: ys)
  case Nil
  then show ?case by auto
next
  case (Cons x xs)
  show ?case
  proof (cases "f x")
    case (Inl e)
    then show ?thesis by (cases ys) auto
  next
    case (Inr y)
    then show ?thesis
      using Cons.IH by (cases ys; cases "map_throw f xs") auto
  qed
qed

lemma map_throw_all_Inr:
  assumes "\<forall>x\<in>set xs. f x = Inr (g x)"
  shows "map_throw f xs = Inr (map g xs)"
  using assms by (simp add: map_throw_Inr_iff)

lemma map_throw_Inr_projr:
  assumes "map_throw f xs = Inr ys"
  shows "\<forall>x\<in>set xs. f x = Inr (projr (f x))" and "ys = map (\<lambda>x. projr (f x)) xs"
proof -
  have eq: "map f xs = map Inr ys"
    using assms by (simp add: map_throw_Inr_iff)
  show all: "\<forall>x\<in>set xs. f x = Inr (projr (f x))"
  proof
    fix x assume "x \<in> set xs"
    then have "f x \<in> set (map f xs)" by simp
    then have "f x \<in> set (map Inr ys)" using eq by simp
    then show "f x = Inr (projr (f x))" by auto
  qed
  have "map Inr ys = map f xs"
    using eq by simp
  also have "\<dots> = map Inr (map (\<lambda>x. projr (f x)) xs)"
    using all by simp
  finally show "ys = map (\<lambda>x. projr (f x)) xs"
    by (metis map_injective inj_Inr)
qed

lemma map_throw_permuted:
  assumes "mset ys = mset xs" and "map_throw f xs = Inr rs"
  shows "\<exists>rs'. map_throw f ys = Inr rs' \<and> mset rs' = mset rs"
proof -
  let ?g = "\<lambda>x. projr (f x)"
  have all: "\<forall>x\<in>set xs. f x = Inr (?g x)" and rs: "rs = map ?g xs"
    using map_throw_Inr_projr [OF assms(2)] by blast+
  have "set ys = set xs"
    using assms(1) by (rule mset_eq_setD)
  then have "map_throw f ys = Inr (map ?g ys)"
    using all by (intro map_throw_all_Inr) simp
  moreover have "mset (map ?g ys) = mset rs"
    using assms(1) rs by simp
  ultimately show ?thesis by blast
qed

text \<open>
  Claim C9. When an array of anchors parses, every permutation of it parses to the same
  ascending list of offsets, and the effect arms the same timers for both.
\<close>

theorem anchor_order_irrelevant:
  assumes "mset ys = mset xs" and "getRefreshValues (Array xs) = Inr rs"
  shows "getRefreshValues (Array ys) = Inr rs \<and> sorted rs
         \<and> useEffect_callback (options\<lparr>refreshAt := Some (Array ys)\<rparr>) m now
             = useEffect_callback (options\<lparr>refreshAt := Some (Array xs)\<rparr>) m now"
proof -
  obtain vs where vs: "map_throw refreshValue xs = Inr vs" and rs: "rs = sort vs"
    using assms(2) by (auto simp: getRefreshValues_def split: sum.splits)
  obtain ws where ws: "map_throw refreshValue ys = Inr ws" and m: "mset ws = mset vs"
    using map_throw_permuted [OF assms(1) vs] by blast
  have "sort ws = sort vs"
    by (rule properties_for_sort) (simp_all add: m)
  then have ys: "getRefreshValues (Array ys) = Inr rs"
    using ws rs by (simp add: getRefreshValues_def)
  have "sorted rs"
    using rs by simp
  then show ?thesis
    using ys assms(2) by (simp add: useEffect_callback_def)
qed

theorem anchor_order_irrelevant_witness:
  "mset [RNumber 500, RString ''0:00:00.1''] = mset [RString ''0:00:00.1'', RNumber 500]
   \<and> getRefreshValues (Array [RString ''0:00:00.1'', RNumber 500]) = Inr [100, 500]
   \<and> getRefreshValues (Array [RNumber 500, RString ''0:00:00.1'']) = Inr [100, 500]"
proof -
  have p: "mset [RNumber 500, RString ''0:00:00.1''] = mset [RString ''0:00:00.1'', RNumber 500]"
    by simp
  have g: "getRefreshValues (Array [RString ''0:00:00.1'', RNumber 500]) = Inr [100, 500]"
    by code_simp
  have r: "getRefreshValues (Array [RNumber 500, RString ''0:00:00.1'']) = Inr [100, 500]"
    using anchor_order_irrelevant [OF p g] by (rule conjunct1)
  show ?thesis
    by (intro conjI p g r)
qed

section \<open>The next and the previous anchor\<close>

lemma nextRefresh_first:
  assumes "i < length refreshes" "m + refreshes ! i \<ge> now" "\<forall>j<i. m + refreshes ! j < now"
  shows "nextRefresh refreshes m now = m + refreshes ! i"
proof -
  have "find (\<lambda>v. m + v \<ge> now) refreshes = Some (refreshes ! i)"
    unfolding find_Some_iff using assms by (auto simp: not_le)
  then show ?thesis by (simp add: nextRefresh_def)
qed

lemma nextRefresh_wrap:
  assumes "\<forall>v\<in>set refreshes. m + v < now"
  shows "nextRefresh refreshes m now = m + TWENTY_FOUR_HOURS + refreshes ! 0"
proof -
  have "find (\<lambda>v. m + v \<ge> now) refreshes = None"
    unfolding find_None_iff using assms by (auto simp: not_le)
  then show ?thesis by (simp add: nextRefresh_def)
qed

lemma nextRefresh_cases:
  "(\<exists>v\<in>set refreshes. now \<le> m + v \<and> nextRefresh refreshes m now = m + v)
   \<or> ((\<forall>v\<in>set refreshes. m + v < now) \<and> nextRefresh refreshes m now = m + TWENTY_FOUR_HOURS + refreshes ! 0)"
proof (cases "find (\<lambda>v. m + v \<ge> now) refreshes")
  case None
  then have "\<forall>v\<in>set refreshes. m + v < now"
    by (auto simp: find_None_iff not_le)
  then show ?thesis using nextRefresh_wrap by blast
next
  case (Some v)
  then have "v \<in> set refreshes" "now \<le> m + v"
    by (auto simp: find_Some_iff)
  moreover have "nextRefresh refreshes m now = m + v"
    using Some by (simp add: nextRefresh_def)
  ultimately show ?thesis by blast
qed

lemma find_Some_mem: "find P xs = Some x \<Longrightarrow> x \<in> set xs \<and> P x"
  by (induction xs) (auto split: if_splits)

lemma prevRefresh_cases:
  "(\<exists>v\<in>set refreshes. m + v < now \<and> prevRefresh refreshes m now = m + v)
   \<or> ((\<forall>v\<in>set refreshes. now \<le> m + v) \<and> prevRefresh refreshes m now = m + TWENTY_FOUR_HOURS + rev refreshes ! 0)"
proof (cases "find (\<lambda>v. m + v < now) (rev refreshes)")
  case None
  then have "\<forall>v\<in>set refreshes. now \<le> m + v"
    by (auto simp: find_None_iff not_less)
  moreover have "prevRefresh refreshes m now = m + TWENTY_FOUR_HOURS + rev refreshes ! 0"
    using None by (simp add: prevRefresh_def)
  ultimately show ?thesis by blast
next
  case (Some v)
  then have "v \<in> set refreshes" "m + v < now"
    using find_Some_mem [of "\<lambda>v. m + v < now" "rev refreshes" v] by simp_all
  moreover have "prevRefresh refreshes m now = m + v"
    using Some by (simp add: prevRefresh_def)
  ultimately show ?thesis by blast
qed

lemma sorted_first_le: "sorted xs \<Longrightarrow> v \<in> set xs \<Longrightarrow> xs ! 0 \<le> v"
  by (cases xs) auto

lemma sorted_last_ge: "sorted xs \<Longrightarrow> v \<in> set xs \<Longrightarrow> v \<le> rev xs ! 0"
  by (cases xs rule: rev_cases) (auto simp: sorted_append)

text \<open>
  Claim C5. For a non-empty ascending list of offsets, the next anchor is the instant of
  the first offset that is not before \<open>now\<close>; when every anchor of today is before
  \<open>now\<close> it is the first offset of tomorrow. An anchor whose instant is \<open>now\<close> is the
  next anchor and is not the previous one.
\<close>

theorem next_anchor_resolution:
  assumes "refreshes \<noteq> []" and "sorted refreshes"
  shows "(\<forall>i<length refreshes.
            now \<le> m + refreshes ! i \<and> (\<forall>j<i. m + refreshes ! j < now)
            \<longrightarrow> nextRefresh refreshes m now = m + refreshes ! i)
         \<and> ((\<forall>v\<in>set refreshes. m + v < now)
            \<longrightarrow> nextRefresh refreshes m now = m + TWENTY_FOUR_HOURS + refreshes ! 0)
         \<and> (now - m \<in> set refreshes
            \<longrightarrow> nextRefresh refreshes m now = now \<and> prevRefresh refreshes m now \<noteq> now)"
proof (intro conjI allI impI)
  fix i
  assume "i < length refreshes"
    and "now \<le> m + refreshes ! i \<and> (\<forall>j<i. m + refreshes ! j < now)"
  then show "nextRefresh refreshes m now = m + refreshes ! i"
    by (simp add: nextRefresh_first)
next
  assume "\<forall>v\<in>set refreshes. m + v < now"
  then show "nextRefresh refreshes m now = m + TWENTY_FOUR_HOURS + refreshes ! 0"
    by (rule nextRefresh_wrap)
next
  assume tie: "now - m \<in> set refreshes"
  then obtain i where i: "i < length refreshes" "refreshes ! i = now - m"
    by (auto simp: in_set_conv_nth)
  define k where "k = (LEAST k. k < length refreshes \<and> now \<le> m + refreshes ! k)"
  have ex: "i < length refreshes \<and> now \<le> m + refreshes ! i"
    using i by simp
  have k: "k < length refreshes \<and> now \<le> m + refreshes ! k"
    unfolding k_def by (rule LeastI [of _ i]) (rule ex)
  have least: "\<forall>j<k. m + refreshes ! j < now"
  proof (intro allI impI)
    fix j assume "j < k"
    then have "\<not> (j < length refreshes \<and> now \<le> m + refreshes ! j)"
      unfolding k_def by (rule not_less_Least)
    moreover have "j < length refreshes" using \<open>j < k\<close> k by simp
    ultimately show "m + refreshes ! j < now" by simp
  qed
  have "k \<le> i"
    unfolding k_def by (rule Least_le) (rule ex)
  then have "refreshes ! k \<le> refreshes ! i"
    using assms(2) i(1) by (simp add: sorted_nth_mono)
  then have "m + refreshes ! k = now"
    using k i(2) by simp
  then show "nextRefresh refreshes m now = now"
    using nextRefresh_first [of k refreshes now m] k least by simp
next
  assume tie: "now - m \<in> set refreshes"
  have day: "0 < TWENTY_FOUR_HOURS" by (simp add: TWENTY_FOUR_HOURS_def)
  from prevRefresh_cases [of refreshes m now]
  show "prevRefresh refreshes m now \<noteq> now"
  proof
    assume "\<exists>v\<in>set refreshes. m + v < now \<and> prevRefresh refreshes m now = m + v"
    then show ?thesis by auto
  next
    assume wrap: "(\<forall>v\<in>set refreshes. now \<le> m + v)
      \<and> prevRefresh refreshes m now = m + TWENTY_FOUR_HOURS + rev refreshes ! 0"
    have "now - m \<le> rev refreshes ! 0"
      using assms(2) tie by (rule sorted_last_ge)
    then show ?thesis using wrap day by simp
  qed
qed

theorem next_anchor_resolution_witness:
  "[18000000, 83121300] \<noteq> [] \<and> sorted [18000000, 83121300 :: int]
   \<and> nextRefresh [18000000, 83121300] 1657177200000 1657257330561 = 1657260321300
   \<and> nextRefresh [18000000, 83121300] 1657177200000 1657260321301 = 1657281600000
   \<and> nextRefresh [18000000, 83121300] 1657177200000 1657260321300 = 1657260321300
   \<and> prevRefresh [18000000, 83121300] 1657177200000 1657260321300 \<noteq> 1657260321300"
proof -
  have s: "[18000000, 83121300] \<noteq> []" "sorted [18000000, 83121300 :: int]"
    by simp_all
  note t = next_anchor_resolution [OF s]
  have a: "nextRefresh [18000000, 83121300] 1657177200000 1657257330561 = 1657260321300"
    using t [of 1657257330561 1657177200000, THEN conjunct1, rule_format, of 1]
    by simp
  have b: "nextRefresh [18000000, 83121300] 1657177200000 1657260321301 = 1657281600000"
    using t [of 1657260321301 1657177200000, THEN conjunct2, THEN conjunct1]
    by (simp add: TWENTY_FOUR_HOURS_def)
  have c: "nextRefresh [18000000, 83121300] 1657177200000 1657260321300 = 1657260321300
    \<and> prevRefresh [18000000, 83121300] 1657177200000 1657260321300 \<noteq> 1657260321300"
    using t [of 1657260321300 1657177200000, THEN conjunct2, THEN conjunct2]
    by simp
  show ?thesis using s a b c by simp
qed

text \<open>
  Claim C1. When \<open>now\<close> is before every anchor of today, the previous anchor should be
  the latest anchor of yesterday, \<open>m + last refreshes - 24h\<close>. The code adds 24 hours
  instead of subtracting them: the fallback of the second assignment repeats the one of
  the first. The instant it takes as the previous anchor lies in the future.
\<close>

theorem prev_anchor_before_all:
  assumes "refreshes \<noteq> []" and "sorted refreshes"
    and "\<forall>v\<in>set refreshes. now < m + v"
  shows "prevRefresh refreshes m now = m + last refreshes + TWENTY_FOUR_HOURS
         \<and> prevRefresh refreshes m now \<noteq> m + last refreshes - TWENTY_FOUR_HOURS
         \<and> now < prevRefresh refreshes m now"
proof -
  have none: "find (\<lambda>v. m + v < now) (rev refreshes) = None"
    unfolding find_None_iff using assms(3) by auto
  have hd: "rev refreshes ! 0 = last refreshes"
    using assms(1) by (simp add: last_conv_nth rev_nth)
  have eq: "prevRefresh refreshes m now = m + last refreshes + TWENTY_FOUR_HOURS"
    using none hd by (simp add: prevRefresh_def)
  have "now < m + last refreshes"
    using assms(1,3) by simp
  then show ?thesis
    using eq by (simp add: TWENTY_FOUR_HOURS_def)
qed

text \<open>
  The anchor \<^verbatim>\<open>1:00\<close> one second after midnight: the code answers 25 hours after
  midnight, the latest anchor of yesterday is 23 hours before midnight.
\<close>

theorem prev_anchor_before_all_witness:
  "[3600000] \<noteq> [] \<and> sorted [3600000 :: int] \<and> list_all (\<lambda>v. (1000::int) < 0 + v) [3600000]
   \<and> prevRefresh [3600000] 0 1000 = 90000000
   \<and> 0 + last [3600000] - TWENTY_FOUR_HOURS = - 82800000
   \<and> 1000 < prevRefresh [3600000] 0 1000"
proof -
  have h: "[3600000] \<noteq> []" "sorted [3600000 :: int]" "\<forall>v\<in>set [3600000]. (1000::int) < 0 + v"
    by simp_all
  show ?thesis
    using prev_anchor_before_all [OF h] by (simp add: TWENTY_FOUR_HOURS_def)
qed

text \<open>
  Claim C2, as the code has it. For a non-empty ascending list of offsets within
  \<open>[0, 24h)\<close> and an instant \<open>now\<close> before the end of the day that starts at \<open>m\<close>:
  the next anchor is not before \<open>now\<close>, and is after \<open>now\<close> unless an anchor falls on
  \<open>now\<close> itself; and when some anchor of today is before \<open>now\<close>, the previous anchor is
  before \<open>now\<close> and at most 24 hours before the next.
\<close>

theorem resolved_pair_bounds:
  assumes "refreshes \<noteq> []" and "sorted refreshes"
    and range: "\<forall>v\<in>set refreshes. 0 \<le> v \<and> v < TWENTY_FOUR_HOURS"
    and day: "now < m + TWENTY_FOUR_HOURS"
  shows "now \<le> nextRefresh refreshes m now
         \<and> (now - m \<notin> set refreshes \<longrightarrow> now < nextRefresh refreshes m now)
         \<and> ((\<exists>v\<in>set refreshes. m + v < now) \<longrightarrow>
              prevRefresh refreshes m now < now
              \<and> nextRefresh refreshes m now - prevRefresh refreshes m now \<le> TWENTY_FOUR_HOURS)"
proof -
  have first: "refreshes ! 0 \<in> set refreshes"
    using assms(1) by simp
  then have first0: "0 \<le> refreshes ! 0"
    using range by blast
  note n = nextRefresh_cases [of refreshes now m]
  have le: "now \<le> nextRefresh refreshes m now"
    using n first0 day by auto
  have strict: "now < nextRefresh refreshes m now" if "now - m \<notin> set refreshes"
    using n
  proof
    assume "\<exists>v\<in>set refreshes. now \<le> m + v \<and> nextRefresh refreshes m now = m + v"
    then obtain v where v: "v \<in> set refreshes" "now \<le> m + v" "nextRefresh refreshes m now = m + v"
      by blast
    have "v \<noteq> now - m" using v(1) that by blast
    then show ?thesis using v by simp
  next
    assume "(\<forall>v\<in>set refreshes. m + v < now)
      \<and> nextRefresh refreshes m now = m + TWENTY_FOUR_HOURS + refreshes ! 0"
    then show ?thesis using first0 day by simp
  qed
  have prev: "prevRefresh refreshes m now < now
      \<and> nextRefresh refreshes m now - prevRefresh refreshes m now \<le> TWENTY_FOUR_HOURS"
    if ex: "\<exists>v\<in>set refreshes. m + v < now"
  proof -
    from prevRefresh_cases [of refreshes m now] ex
    obtain p where p: "p \<in> set refreshes" "m + p < now" "prevRefresh refreshes m now = m + p"
      by (auto simp: not_le)
    have p0: "0 \<le> p" using p(1) range by blast
    have "nextRefresh refreshes m now - (m + p) \<le> TWENTY_FOUR_HOURS"
      using n
    proof
      assume "\<exists>v\<in>set refreshes. now \<le> m + v \<and> nextRefresh refreshes m now = m + v"
      then obtain v where v: "v \<in> set refreshes" "nextRefresh refreshes m now = m + v"
        by blast
      have "v < TWENTY_FOUR_HOURS" using v(1) range by blast
      then show ?thesis using v(2) p0 by simp
    next
      assume w: "(\<forall>v\<in>set refreshes. m + v < now)
        \<and> nextRefresh refreshes m now = m + TWENTY_FOUR_HOURS + refreshes ! 0"
      have "refreshes ! 0 \<le> p"
        using assms(2) p(1) by (rule sorted_first_le)
      then show ?thesis using w by simp
    qed
    then show ?thesis using p by simp
  qed
  show ?thesis using le strict prev by blast
qed

theorem resolved_pair_bounds_witness:
  "[18000000, 83121300] \<noteq> [] \<and> sorted [18000000, 83121300 :: int]
   \<and> list_all (\<lambda>v. 0 \<le> v \<and> v < TWENTY_FOUR_HOURS) [18000000, 83121300]
   \<and> (1657257330561 :: int) < 1657177200000 + TWENTY_FOUR_HOURS
   \<and> 1657177200000 + 18000000 < (1657257330561 :: int)
   \<and> 1657257330561 \<le> nextRefresh [18000000, 83121300] 1657177200000 1657257330561
   \<and> 1657257330561 < nextRefresh [18000000, 83121300] 1657177200000 1657257330561
   \<and> prevRefresh [18000000, 83121300] 1657177200000 1657257330561 < 1657257330561
   \<and> nextRefresh [18000000, 83121300] 1657177200000 1657257330561
       - prevRefresh [18000000, 83121300] 1657177200000 1657257330561 \<le> TWENTY_FOUR_HOURS"
proof -
  have h: "[18000000, 83121300] \<noteq> []" "sorted [18000000, 83121300 :: int]"
    "\<forall>v\<in>set [18000000, 83121300]. 0 \<le> v \<and> v < TWENTY_FOUR_HOURS"
    "(1657257330561 :: int) < 1657177200000 + TWENTY_FOUR_HOURS"
    by (simp_all add: TWENTY_FOUR_HOURS_def)
  show ?thesis
    using h resolved_pair_bounds [OF h] by simp
qed

text \<open>
  The claim as the specification words it asks for \<open>now < next\<close>. With the anchors
  \<^verbatim>\<open>0:00\<close> and \<^verbatim>\<open>1:00\<close> and \<open>now\<close> at one o'clock, the next anchor is \<open>now\<close>.
\<close>

theorem resolved_pair_tie_counterexample:
  "getRefreshValues (Array [RString ''0:00'', RString ''1:00'']) = Inr [0, 3600000]
   \<and> nextRefresh [0, 3600000] 0 3600000 = 3600000
   \<and> prevRefresh [0, 3600000] 0 3600000 = 0
   \<and> \<not> (prevRefresh [0, 3600000] 0 3600000 \<le> 3600000
         \<and> 3600000 < nextRefresh [0, 3600000] 0 3600000
         \<and> nextRefresh [0, 3600000] 0 3600000 - prevRefresh [0, 3600000] 0 3600000
              \<le> TWENTY_FOUR_HOURS)"
  by (simp add: nextRefresh_def prevRefresh_def TWENTY_FOUR_HOURS_def) code_simp

section \<open>The interval timer\<close>

lemma js_rem_multiple: "\<exists>q. a - js_rem a b = q * b"
proof (cases "0 \<le> a")
  case True
  then have "a - js_rem a b = abs b * (a div abs b)"
    by (cases "a = 0") (simp_all add: js_rem_def minus_mod_eq_mult_div)
  also have "\<dots> = (sgn b * (a div abs b)) * b"
    by (simp add: abs_sgn mult.commute mult.left_commute)
  finally show ?thesis by blast
next
  case False
  then have "a - js_rem a b = - (abs b * ((- a) div abs b))"
    by (simp add: js_rem_def minus_mod_eq_mult_div [symmetric])
  also have "\<dots> = (- (sgn b * ((- a) div abs b))) * b"
    by (simp add: abs_sgn mult.commute mult.left_commute)
  finally show ?thesis by blast
qed

lemma fire_instant_on_grid:
  "\<exists>j. fire_instant now (setIntervalRelativeTo now fromTime ms) k = fromTime + j * ms"
proof -
  obtain q where q: "(now - fromTime) - js_rem (now - fromTime) ms = q * ms"
    using js_rem_multiple by blast
  have "fire_instant now (setIntervalRelativeTo now fromTime ms) k
      = fromTime + ((now - fromTime) - js_rem (now - fromTime) ms) + (1 + int k) * ms"
    by (simp add: fire_instant_def setIntervalRelativeTo_def algebra_simps)
  also have "\<dots> = fromTime + (q + 1 + int k) * ms"
    unfolding q by (simp add: algebra_simps)
  finally show ?thesis by blast
qed

text \<open>
  Claim C6, as the code has it. For a positive interval, the delay of the first fire is
  the interval minus the truncated remainder (the \<^verbatim>\<open>%\<close> of the source) of the time
  since the phase reference. When \<open>now\<close> is at or after the phase reference this is
  \<open>ms - ((now - fromTime) mod ms)\<close>, at most one interval. When \<open>now\<close> is before the
  phase reference the remainder is negative and the delay is
  \<open>ms + ((fromTime - now) mod ms)\<close>, at least one interval. In every case the delay is
  positive and every fire falls on the grid \<open>fromTime + j * ms\<close>.
\<close>

theorem interval_phase_alignment:
  assumes "0 < ms"
  shows "first_delay (setIntervalRelativeTo now fromTime ms) = ms - js_rem (now - fromTime) ms
         \<and> (\<forall>k. \<exists>j. fire_instant now (setIntervalRelativeTo now fromTime ms) k = fromTime + j * ms)
         \<and> 0 < first_delay (setIntervalRelativeTo now fromTime ms)
         \<and> (fromTime \<le> now \<longrightarrow>
               first_delay (setIntervalRelativeTo now fromTime ms) = ms - (now - fromTime) mod ms
               \<and> first_delay (setIntervalRelativeTo now fromTime ms) \<le> ms)
         \<and> (now < fromTime \<longrightarrow>
               first_delay (setIntervalRelativeTo now fromTime ms) = ms + (fromTime - now) mod ms
               \<and> ms \<le> first_delay (setIntervalRelativeTo now fromTime ms))"
proof -
  have d: "first_delay (setIntervalRelativeTo now fromTime ms) = ms - js_rem (now - fromTime) ms"
    by (simp add: setIntervalRelativeTo_def)
  have grid: "\<forall>k. \<exists>j. fire_instant now (setIntervalRelativeTo now fromTime ms) k = fromTime + j * ms"
    using fire_instant_on_grid by blast
  have after: "js_rem (now - fromTime) ms = (now - fromTime) mod ms" if "fromTime \<le> now"
    using that assms by (simp add: js_rem_nonneg)
  have before: "js_rem (now - fromTime) ms = - ((fromTime - now) mod ms)" if "now < fromTime"
    using that assms by (simp add: js_rem_neg)
  have lt: "(now - fromTime) mod ms < ms" and ge: "0 \<le> (now - fromTime) mod ms"
    and ge': "0 \<le> (fromTime - now) mod ms"
    using assms by simp_all
  have pos: "0 < ms - js_rem (now - fromTime) ms"
  proof (cases "fromTime \<le> now")
    case True
    then show ?thesis using after lt by simp
  next
    case False
    then have "js_rem (now - fromTime) ms = - ((fromTime - now) mod ms)"
      using before by simp
    then show ?thesis using ge' assms by linarith
  qed
  show ?thesis
    using d grid pos after before ge ge' by simp
qed

theorem interval_phase_alignment_witness:
  "(0::int) < 300000
   \<and> first_delay (setIntervalRelativeTo 1657257330561 1657177200000 300000) = 269439
   \<and> fire_instant 1657257330561 (setIntervalRelativeTo 1657257330561 1657177200000 300000) 0
        = 1657257600000
   \<and> first_delay (setIntervalRelativeTo 1000 90000000 600000) = 1199000"
proof -
  have h: "(0::int) < 300000" "(0::int) < 600000" by simp_all
  have a: "first_delay (setIntervalRelativeTo 1657257330561 1657177200000 300000) = 269439"
    using interval_phase_alignment [OF h(1), of 1657257330561 1657177200000] by simp
  have b: "first_delay (setIntervalRelativeTo 1000 90000000 600000) = 1199000"
    using interval_phase_alignment [OF h(2), of 1000 90000000] by simp
  show ?thesis
    using a b by (simp add: fire_instant_def setIntervalRelativeTo_def)
qed

text \<open>
  The claim as the specification words it gives the formula with the non-negative modulus
  for every call instant. One second after midnight, with a phase reference 25 hours
  after midnight and an interval of ten minutes, the code waits 1199000 milliseconds,
  where the formula gives 599000; the hook reaches this with the anchor \<^verbatim>\<open>1:00\<close>.
\<close>

theorem interval_before_phase_counterexample:
  "first_delay (setIntervalRelativeTo 1000 90000000 600000) = 1199000
   \<and> 600000 - ((1000 - 90000000) mod 600000) = (599000 :: int)
   \<and> first_delay (setIntervalRelativeTo 1000 90000000 600000)
       \<noteq> 600000 - ((1000 - 90000000) mod 600000)
   \<and> useEffect_callback
         \<lparr>utc = Some True, refreshAt = Some (Single (RString ''1:00'')),
          returnCurrentTime = None, interval = Some 600000\<rparr> 0 1000
       = Inr \<lparr>timeout_delay = 3599000,
              repeating = \<lparr>first_delay = 1199000, period = 600000\<rparr>\<rparr>"
proof -
  have d: "first_delay (setIntervalRelativeTo 1000 90000000 600000) = 1199000"
    by (simp add: setIntervalRelativeTo_def js_rem_def)
  have e: "useEffect_callback
         \<lparr>utc = Some True, refreshAt = Some (Single (RString ''1:00'')),
          returnCurrentTime = None, interval = Some 600000\<rparr> 0 1000
       = Inr \<lparr>timeout_delay = 3599000,
              repeating = \<lparr>first_delay = 1199000, period = 600000\<rparr>\<rparr>"
    by code_simp
  show ?thesis
    using d e by simp
qed

section \<open>The effect and the value of the hook\<close>

text \<open>
  Claim C8. With the empty array for \<^verbatim>\<open>refreshAt\<close> the effect throws the error whose
  message is \<^verbatim>\<open>refreshAt must have at least one value\<close>, and arms nothing.
\<close>

theorem empty_anchor_array_rejected:
  "useEffect_callback (options\<lparr>refreshAt := Some (Array [])\<rparr>) m now = Inl EmptyAnchorSet
   \<and> message EmptyAnchorSet = ''refreshAt must have at least one value''"
  by (simp add: useEffect_callback_def getRefreshValues_def)

theorem empty_anchor_array_rejected_witness:
  "useEffect_callback \<lparr>utc = None, refreshAt = Some (Array []), returnCurrentTime = None, interval = None\<rparr>
      1657177200000 1657257330561 = Inl EmptyAnchorSet"
  using empty_anchor_array_rejected
    [of "\<lparr>utc = None, refreshAt = None, returnCurrentTime = None, interval = None\<rparr>"
        1657177200000 1657257330561]
  by simp

text \<open>
  Claim C10. When \<^verbatim>\<open>returnCurrentTime\<close> is not given, it counts as true exactly when
  an interval is given or \<^verbatim>\<open>refreshAt\<close> is an array of more than one element; the hook
  then returns the current instant, and otherwise the midnight of the current day.
\<close>

theorem returnCurrentTime_default:
  assumes "returnCurrentTime options = None"
  shows "returnCurrentTime_or_default options
           = (interval options \<noteq> None
              \<or> (\<exists>vs. refreshAt options = Some (Array vs) \<and> 1 < length vs))
         \<and> useCurrentDate env options
           = (if interval options \<noteq> None
                 \<or> (\<exists>vs. refreshAt options = Some (Array vs) \<and> 1 < length vs)
              then clock env else getCurrentMidnight env (utc options))"
proof -
  have "returnCurrentTime_or_default options
      = (interval options \<noteq> None
         \<or> (\<exists>vs. refreshAt options = Some (Array vs) \<and> 1 < length vs))"
    using assms
    by (auto simp: returnCurrentTime_or_default_def split: option.splits RefreshAtOption.splits)
  then show ?thesis
    by (simp add: useCurrentDate_def)
qed

theorem returnCurrentTime_default_witness:
  "returnCurrentTime \<lparr>utc = None, refreshAt = Some (Array [RNumber 10, RNumber 5]),
       returnCurrentTime = None, interval = None\<rparr> = None
   \<and> useCurrentDate \<lparr>clock = 1657257330561, localMidnight = 1657177200000\<rparr>
       \<lparr>utc = None, refreshAt = Some (Array [RNumber 10, RNumber 5]),
        returnCurrentTime = None, interval = None\<rparr> = 1657257330561
   \<and> useCurrentDate \<lparr>clock = 1657257330561, localMidnight = 1657177200000\<rparr>
       \<lparr>utc = None, refreshAt = Some (Array [RNumber 10]),
        returnCurrentTime = None, interval = None\<rparr> = 1657177200000
   \<and> useCurrentDate \<lparr>clock = 1657257330561, localMidnight = 1657177200000\<rparr>
       \<lparr>utc = Some True, refreshAt = Some (Single (RString ''5:00'')),
        returnCurrentTime = None, interval = None\<rparr> = 1657238400000
   \<and> useCurrentDate \<lparr>clock = 1657257330561, localMidnight = 1657177200000\<rparr>
       \<lparr>utc = None, refreshAt = None,
        returnCurrentTime = None, interval = Some 300000\<rparr> = 1657257330561"
proof -
  let ?env = "\<lparr>clock = 1657257330561, localMidnight = 1657177200000\<rparr>"
  note t = returnCurrentTime_default [where env = ?env, THEN conjunct2]
  have a: "useCurrentDate ?env
       \<lparr>utc = None, refreshAt = Some (Array [RNumber 10, RNumber 5]),
        returnCurrentTime = None, interval = None\<rparr> = 1657257330561"
    using t [of "\<lparr>utc = None, refreshAt = Some (Array [RNumber 10, RNumber 5]),
        returnCurrentTime = None, interval = None\<rparr>"] by simp
  have b: "useCurrentDate ?env
       \<lparr>utc = None, refreshAt = Some (Array [RNumber 10]),
        returnCurrentTime = None, interval = None\<rparr> = 1657177200000"
    using t [of "\<lparr>utc = None, refreshAt = Some (Array [RNumber 10]),
        returnCurrentTime = None, interval = None\<rparr>"] by (simp add: getCurrentMidnight_def)
  have c: "useCurrentDate ?env
       \<lparr>utc = Some True, refreshAt = Some (Single (RString ''5:00'')),
        returnCurrentTime = None, interval = None\<rparr> = 1657238400000"
    using t [of "\<lparr>utc = Some True, refreshAt = Some (Single (RString ''5:00'')),
        returnCurrentTime = None, interval = None\<rparr>"] by (simp add: getCurrentMidnight_def)
  have d: "useCurrentDate ?env
       \<lparr>utc = None, refreshAt = None,
        returnCurrentTime = None, interval = Some 300000\<rparr> = 1657257330561"
    using t [of "\<lparr>utc = None, refreshAt = None,
        returnCurrentTime = None, interval = Some 300000\<rparr>"] by simp
  show ?thesis using a b c d by simp
qed

end
